theory Spec2Isabelle
  imports Main "HOL-Library.Word"
begin

section \<open>PmKLogDaemonUtil.c: bounded string utilities, process lock, integer parser\<close>

subsection \<open>Diagnostic channel\<close>

text \<open>
  \<open>ErrPrint\<close> and \<open>DbgPrint\<close> are macros of PmKLogDaemon.h. A diagnostic is recorded
  with its severity and the format string of the call (without the trailing newline and
  without the rendered arguments).
\<close>

datatype diag = ErrPrint string | DbgPrint string

subsection \<open>Byte buffers and C strings\<close>

definition NUL :: char where
  "NUL = CHR 0x00"

text \<open>
  A region of memory is the list of its bytes. \<open>strlen\<close> counts the bytes before the
  first terminator; the end of the region counts as a terminator, so a source string may
  be given by its bytes alone. \<open>size_t\<close> values are \<open>nat\<close>: the code subtracts only
  after checking that the result is not negative and adds only below \<open>dstSize\<close>.
\<close>

definition strlen :: "char list \<Rightarrow> nat" where
  "strlen m = length (takeWhile (\<lambda>b. b \<noteq> NUL) m)"

definition c_str :: "char list \<Rightarrow> string" where
  "c_str m = takeWhile (\<lambda>b. b \<noteq> NUL) m"

text \<open>
  The effect of one call on its destination: the memory at \<open>dst\<close> (\<open>None\<close> when the
  pointer is \<open>NULL\<close>), the indices stored to in program order, and the diagnostics
  reported.
\<close>

record call =
  mem :: "char list option"
  writes :: "nat list"
  log :: "diag list"

definition start :: "char list option \<Rightarrow> call" where
  "start dst = \<lparr>mem = dst, writes = [], log = []\<rparr>"

definition report :: "diag \<Rightarrow> call \<Rightarrow> call" where
  "report d c = c\<lparr>log := log c @ [d]\<rparr>"

text \<open>\<open>dst[i] = b\<close>\<close>

definition store :: "nat \<Rightarrow> char \<Rightarrow> call \<Rightarrow> call" where
  "store i b c = c\<lparr>mem := map_option (\<lambda>m. m[i := b]) (mem c), writes := writes c @ [i]\<rparr>"

text \<open>\<open>memcpy(dst + off, src, n)\<close>: \<open>n\<close> single-byte stores, in ascending order.\<close>

definition memcpy :: "nat \<Rightarrow> char list \<Rightarrow> nat \<Rightarrow> call \<Rightarrow> call" where
  "memcpy off src n c = fold (\<lambda>k. store (off + k) (src ! k)) [0..<n] c"

text \<open>
  The source pointer of \<open>mystrcpy\<close> and \<open>mystrcat\<close>: \<open>NULL\<close>, a string stored apart
  from the destination (its bytes), or the destination pointer itself (\<open>src == dst\<close>).
  What a read through it sees depends on the state at the time of the read: through
  \<open>SrcIsDst\<close> it sees the destination as the stores so far have left it, and \<open>NULL\<close> when
  the destination is \<open>NULL\<close>. A source that points into the destination at another
  offset either hands \<open>memcpy\<close> overlapping regions, which C leaves undefined, or is
  read before any store reaches it, as a string stored apart is.
\<close>

datatype src_ptr = SrcNull | SrcApart "char list" | SrcIsDst

definition read_src :: "src_ptr \<Rightarrow> call \<Rightarrow> char list option" where
  "read_src src c = (case src of SrcNull \<Rightarrow> None | SrcApart s \<Rightarrow> Some s | SrcIsDst \<Rightarrow> mem c)"

text \<open>
  \<open>memcpy(dst + off, src, n)\<close> through a source pointer. With \<open>src == dst\<close> the two
  calls below copy between regions that do not overlap (\<open>mystrcpy\<close> copies no byte,
  \<open>mystrcat\<close> copies at most \<open>dstLen\<close> bytes from index 0 to index \<open>dstLen\<close>), so the bytes
  copied are those at the source when \<open>memcpy\<close> is called.
\<close>

definition memcpy_src :: "nat \<Rightarrow> src_ptr \<Rightarrow> nat \<Rightarrow> call \<Rightarrow> call" where
  "memcpy_src off src n c = (case read_src src c of None \<Rightarrow> c | Some s \<Rightarrow> memcpy off s n c)"

subsection \<open>mystrcpy\<close>

definition mystrcpy :: "char list option \<Rightarrow> nat \<Rightarrow> src_ptr \<Rightarrow> call" where
  "mystrcpy dst dstSize src =
    (if dst = None then report (ErrPrint ''mystrcpy null dst'') (start dst)
     else if dstSize < 1 then report (ErrPrint ''mystrcpy invalid dst size'') (start dst)
     else
       let c0 = store 0 NUL (start dst) in
       (case read_src src c0 of
          None \<Rightarrow> report (ErrPrint ''mystrcpy null src'') c0
        | Some s \<Rightarrow>
            let srcLen = strlen s in
            if srcLen \<ge> dstSize
            then
              let c1 = report (ErrPrint (''mystrcpy buffer overflow on '' @ [CHR 0x27] @ ''%s'' @ [CHR 0x27])) c0;
                  srcLen = dstSize - 1
              in store srcLen NUL (memcpy_src 0 src srcLen c1)
            else store srcLen NUL (memcpy_src 0 src srcLen c0)))"

subsection \<open>mystrcat\<close>

definition mystrcat :: "char list option \<Rightarrow> nat \<Rightarrow> src_ptr \<Rightarrow> call" where
  "mystrcat dst dstSize src =
    (case dst of
       None \<Rightarrow> report (ErrPrint ''mystrcat null dst'') (start dst)
     | Some m \<Rightarrow>
         if dstSize < 1 then report (ErrPrint ''mystrcat invalid dst size'') (start dst)
         else
           let dstLen = strlen m in
           if dstLen \<ge> dstSize then report (ErrPrint ''mystrcat invalid dst len'') (start dst)
           else
             (case read_src src (start dst) of
                None \<Rightarrow> report (ErrPrint ''mystrcat null src'') (start dst)
              | Some s \<Rightarrow>
                  let srcLen = strlen s in
                  if srcLen < 1 then start dst
                  else
                    let maxLen = (dstSize - 1) - dstLen;
                        c0 = (if srcLen > maxLen
                              then report (ErrPrint ''mystrcat buffer overflow'') (start dst)
                              else start dst);
                        srcLen = (if srcLen > maxLen then maxLen else srcLen)
                    in if srcLen > 0
                       then store (dstLen + srcLen) NUL (memcpy_src dstLen src srcLen c0)
                       else c0))"

subsection \<open>mysprintf\<close>

text \<open>
  \<open>vsnprintf\<close> is the C library's. What it does with the format and the arguments of a
  call is a parameter: either it fails, returning a negative value after storing some
  bytes of its own choice inside the first \<open>size\<close> bytes, or it formats the output
  \<open>out\<close>, stores as much of it as fits before a terminator, and returns its full length.
\<close>

datatype fmt_outcome = Formatted string | FormatError "char list"

definition vsnprintf :: "nat \<Rightarrow> fmt_outcome \<Rightarrow> call \<Rightarrow> int \<times> call" where
  "vsnprintf sz oc c =
    (case oc of
       Formatted out \<Rightarrow>
         (int (length out),
          if sz = 0 then c
          else let k = min (length out) (sz - 1) in store k NUL (memcpy 0 out k c))
     | FormatError junk \<Rightarrow> (- 1, memcpy 0 junk (min (length junk) sz) c))"

definition mysprintf :: "char list option \<Rightarrow> nat \<Rightarrow> string option \<Rightarrow> fmt_outcome \<Rightarrow> call" where
  "mysprintf dst dstSize fmt oc =
    (if dst = None then report (ErrPrint ''mysprintf null dst'') (start dst)
     else if dstSize < 1 then report (ErrPrint ''mysprintf invalid dst size'') (start dst)
     else
       let c0 = store 0 NUL (start dst) in
       if fmt = None then report (ErrPrint ''mysprintf null fmt'') c0
       else
         let (n, c1) = vsnprintf dstSize oc c0 in
         if n < 0 then store 0 NUL (report (ErrPrint ''mysprintf error'') c1)
         else if nat n \<ge> dstSize
         then store (dstSize - 1) NUL (report (ErrPrint ''mysprintf buffer overflow'') c1)
         else c1)"

subsection \<open>The process lock\<close>

text \<open>
  The operating system is the environment of \<open>LockProcess\<close> and \<open>UnlockProcess\<close>.
  \<open>env\<close> holds what it answers to the calls of one \<open>LockProcess\<close>: the process id
  (\<open>pid_t\<close>, a 32-bit \<open>int\<close>) and, for each of \<open>open\<close>, \<open>lockf\<close>, \<open>ftruncate\<close> and
  \<open>write\<close>, the value returned and the \<open>errno\<close> left behind.
\<close>

record env =
  pid :: "32 word"
  open_ret :: int
  open_errno :: int
  lockf_ret :: int
  lockf_errno :: int
  ftruncate_ret :: int
  ftruncate_errno :: int
  write_ret :: int
  write_errno :: int

datatype syscall =
    Mkdir string
  | Open string
  | Lockf int
  | Ftruncate int
  | Write int string
  | Close int
  | Unlink string

text \<open>\<open>typedef struct { char path[PATH_MAX]; int fd; } LockFile\<close>\<close>

record LockFile =
  path :: "char list"
  fd :: int

text \<open>
  The state of the process: the static \<open>g_processLock\<close>, the descriptors the process
  has open, the paths that exist in the file system, the system calls made so far and the
  diagnostics reported so far.
\<close>

record world =
  g_processLock :: LockFile
  open_fds :: "int set"
  files :: "string set"
  calls :: "syscall list"
  diags :: "diag list"

text \<open>\<open>PATH_MAX\<close> of Linux's limits.h; \<open>EAGAIN\<close> and \<open>EDEADLK\<close> of its errno.h.\<close>

definition PATH_MAX :: nat where
  "PATH_MAX = 4096"

definition EAGAIN :: int where
  "EAGAIN = 11"

definition EDEADLK :: int where
  "EDEADLK = 35"

text \<open>A static object is zero-initialised.\<close>

definition g_processLock_init :: LockFile where
  "g_processLock_init = \<lparr>path = replicate PATH_MAX NUL, fd = 0\<rparr>"

definition sys :: "syscall \<Rightarrow> world \<Rightarrow> world" where
  "sys sc w = w\<lparr>calls := calls w @ [sc]\<rparr>"

definition ErrPrintW :: "string \<Rightarrow> world \<Rightarrow> world" where
  "ErrPrintW msg w = w\<lparr>diags := diags w @ [ErrPrint msg]\<rparr>"

definition DbgPrintW :: "string \<Rightarrow> world \<Rightarrow> world" where
  "DbgPrintW msg w = w\<lparr>diags := diags w @ [DbgPrint msg]\<rparr>"

text \<open>
  \<open>open(path, O_RDWR | O_CREAT, ...)\<close> that returned \<open>r\<close>: when it succeeded the
  descriptor is open and the file exists.
\<close>

definition sys_open :: "string \<Rightarrow> int \<Rightarrow> world \<Rightarrow> world" where
  "sys_open p r w =
    (let w1 = sys (Open p) w in
     if r < 0 then w1 else w1\<lparr>open_fds := insert r (open_fds w1), files := insert p (files w1)\<rparr>)"



text \<open>The \<open>%d\<close> conversion of an \<open>int\<close>.\<close>

fun digits :: "nat \<Rightarrow> string" where
  "digits n = (if n < 10 then [char_of (48 + n)] else digits (n div 10) @ [char_of (48 + n mod 10)])"

definition show_int :: "int \<Rightarrow> string" where
  "show_int i = (if i < 0 then CHR ''-'' # digits (nat (- i)) else digits (nat i))"

text \<open>
  \<open>mysprintf\<close> on a member of the world: the diagnostics go to the world's channel and
  the buffer's new content is handed back.
\<close>

definition mysprintfW ::
    "char list \<Rightarrow> nat \<Rightarrow> string \<Rightarrow> string \<Rightarrow> world \<Rightarrow> char list \<times> world" where
  "mysprintfW buf dstSize fmt out w =
    (let r = mysprintf (Some buf) dstSize (Some fmt) (Formatted out) in
     (case mem r of None \<Rightarrow> buf | Some b \<Rightarrow> b, w\<lparr>diags := diags w @ log r\<rparr>))"

text \<open>
  \<open>component\<close> is not \<open>NULL\<close>. \<open>pidStr\<close> is an uninitialised array of 16 bytes, which
  \<open>mysprintf\<close> writes before anything reads it; it starts here as 16 terminators.
\<close>

definition LockProcess :: "env \<Rightarrow> string \<Rightarrow> world \<Rightarrow> bool \<times> world" where
  "LockProcess e component w =
    (let locksDirPath = ''/tmp/run'';
         lock = g_processLock w;
         w = sys (Mkdir locksDirPath) w;
         (p, w) = mysprintfW (path lock) PATH_MAX ''%s/%s.pid''
                    (locksDirPath @ ''/'' @ c_str component @ ''.pid'') w;
         lock = lock\<lparr>path := p\<rparr>;
         w = w\<lparr>g_processLock := lock\<rparr>;
         fd = open_ret e;
         w = sys_open (c_str (path lock)) fd w
     in
     if fd < 0
     then (False, ErrPrintW ''Failed to open lock file (err %d, %s), exiting.'' w)
     else
       let w = sys (Lockf fd) w in
       if lockf_ret e < 0
       then
         (if lockf_errno e = EDEADLK \<or> lockf_errno e = EAGAIN
          then (False, ErrPrintW ''Failed to acquire lock, exiting.'' w)
          else (False, ErrPrintW ''Failed to acquire lock (err %d, %s), exiting.'' w))
       else
         let w = sys (Ftruncate fd) w;
             w = (if ftruncate_ret e < 0
                  then DbgPrintW ''Failed truncating lock file (err %d, %s).'' w else w);
             (pidStr, w) = mysprintfW (replicate 16 NUL) 16 (''%d'' @ [CHR 0x0A])
                             (show_int (sint (pid e)) @ [CHR 0x0A]) w;
             pidStrLen = int (strlen pidStr);
             w = sys (Write fd (take (nat pidStrLen) pidStr)) w;
             w = (if write_ret e < pidStrLen
                  then DbgPrintW ''Failed writing lock file (err %d, %s).'' w else w);
             lock = lock\<lparr>fd := fd\<rparr>
         in (True, w\<lparr>g_processLock := lock\<rparr>))"


subsection \<open>ParseInt\<close>

text \<open>
  \<open>strtol(nptr, &endptr, 0)\<close> is the C library's; the model follows ISO C 7.22.1.4 in
  the C locale: white space is skipped, then an optional sign, then with base 0 a
  hexadecimal constant after \<open>0x\<close> or \<open>0X\<close>, an octal one after \<open>0\<close>, a decimal one
  otherwise. \<open>long\<close> has 64 bits and \<open>int\<close> 32 (LP64).
\<close>

definition LONG_MAX :: int where
  "LONG_MAX = 9223372036854775807"

definition LONG_MIN :: int where
  "LONG_MIN = - 9223372036854775808"

definition ERANGE :: int where
  "ERANGE = 34"

definition isspace :: "char \<Rightarrow> bool" where
  "isspace ch \<longleftrightarrow> ch \<in> set [CHR '' '', CHR 0x09, CHR 0x0A, CHR 0x0B, CHR 0x0C, CHR 0x0D]"

definition digit_val :: "char \<Rightarrow> nat option" where
  "digit_val ch =
    (let k = (of_char ch :: nat) in
     if 48 \<le> k \<and> k \<le> 57 then Some (k - 48)
     else if 97 \<le> k \<and> k \<le> 122 then Some (k - 87)
     else if 65 \<le> k \<and> k \<le> 90 then Some (k - 55)
     else None)"

definition is_digit :: "nat \<Rightarrow> char \<Rightarrow> bool" where
  "is_digit base ch = (case digit_val ch of None \<Rightarrow> False | Some v \<Rightarrow> v < base)"

definition digit_of :: "char \<Rightarrow> nat" where
  "digit_of ch = (case digit_val ch of None \<Rightarrow> 0 | Some v \<Rightarrow> v)"

definition sign_len :: "char list \<Rightarrow> nat" where
  "sign_len r = (case r of [] \<Rightarrow> 0 | ch # _ \<Rightarrow> if ch = CHR ''-'' \<or> ch = CHR ''+'' then 1 else 0)"

definition hex_prefix :: "char list \<Rightarrow> bool" where
  "hex_prefix r =
    (case r of
       a # b # d # _ \<Rightarrow> a = CHR ''0'' \<and> (b = CHR ''x'' \<or> b = CHR ''X'') \<and> is_digit 16 d
     | _ \<Rightarrow> False)"

definition detect_base :: "char list \<Rightarrow> nat" where
  "detect_base r =
    (if hex_prefix r then 16
     else case r of [] \<Rightarrow> 10 | a # _ \<Rightarrow> if a = CHR ''0'' then 8 else 10)"

text \<open>
  The result of \<open>strtol\<close>: the value returned, \<open>endptr - nptr\<close>, and the \<open>errno\<close> it
  leaves when \<open>errno\<close> was 0 before the call.
\<close>

definition strtol :: "char list \<Rightarrow> int \<times> nat \<times> int" where
  "strtol nptr =
    (let ws = takeWhile isspace nptr;
         r1 = dropWhile isspace nptr;
         neg = (case r1 of [] \<Rightarrow> False | ch # _ \<Rightarrow> ch = CHR ''-'');
         r2 = drop (sign_len r1) r1;
         base = detect_base r2;
         r3 = (if hex_prefix r2 then drop 2 r2 else r2);
         ds = takeWhile (is_digit base) r3
     in
     if ds = [] then (0, 0, 0)
     else
       let v = int (foldl (\<lambda>acc ch. acc * base + digit_of ch) 0 ds);
           n = (if neg then - v else v);
           endptr = length ws + sign_len r1 + (if hex_prefix r2 then 2 else 0) + length ds
       in if n > LONG_MAX then (LONG_MAX, endptr, ERANGE)
          else if n < LONG_MIN then (LONG_MIN, endptr, ERANGE)
          else (n, endptr, 0))"

text \<open>\<open>*(p + i)\<close> for a string \<open>p\<close>: the end of the region reads as the terminator.\<close>

definition deref :: "char list \<Rightarrow> nat \<Rightarrow> char" where
  "deref p i = (if i < length p then p ! i else NUL)"

text \<open>\<open>(int) n\<close> for a \<open>long\<close> \<open>n\<close>: the low 32 bits, read as two's complement.\<close>

definition to_int :: "int \<Rightarrow> int" where
  "to_int n = sint (word_of_int n :: 32 word)"

text \<open>
  \<open>valStr\<close> is not \<open>NULL\<close>. The second argument is the value of \<open>*nP\<close> before the
  call, the second component of the result its value after the call.
\<close>

definition ParseInt :: "char list \<Rightarrow> int \<Rightarrow> bool \<times> int" where
  "ParseInt valStr nP =
    (let (n, endptr, errno) = strtol valStr in
     if endptr = 0 \<or> deref valStr endptr \<noteq> NUL \<or> errno \<noteq> 0
     then (False, nP)
     else (True, to_int n))"

subsection \<open>Properties of a call's effect\<close>

text \<open>The string a buffer holds: its bytes up to the first terminator.\<close>

definition content :: "call \<Rightarrow> string option" where
  "content r = map_option c_str (mem r)"


text \<open>The buffer exists and is \<open>n\<close> bytes long.\<close>

definition has_len :: "nat \<Rightarrow> call \<Rightarrow> bool" where
  "has_len n r \<longleftrightarrow> map_option length (mem r) = Some n"

text \<open>The call returned without a store to the buffer \<open>m\<close>.\<close>

definition untouched :: "char list \<Rightarrow> call \<Rightarrow> bool" where
  "untouched m r \<longleftrightarrow> writes r = [] \<and> mem r = Some m"

text \<open>
  The buffer, still \<open>n\<close> bytes long, holds a terminator at an index below \<open>c\<close>: a
  null-terminated string of length less than \<open>c\<close>.
\<close>

definition terminated_within :: "nat \<Rightarrow> nat \<Rightarrow> call \<Rightarrow> bool" where
  "terminated_within n c r =
    (case mem r of
       None \<Rightarrow> False
     | Some m' \<Rightarrow> length m' = n \<and> strlen m' < c \<and> m' ! strlen m' = NUL)"

definition writes_below :: "nat \<Rightarrow> call \<Rightarrow> bool" where
  "writes_below c r = list_all (\<lambda>i. i < c) (writes r)"

definition bounded_buffer_ok :: "char list \<Rightarrow> nat \<Rightarrow> call \<Rightarrow> bool" where
  "bounded_buffer_ok m c r \<longleftrightarrow>
    (untouched m r \<or> terminated_within (length m) c r) \<and> writes_below c r"

text \<open>The system calls made between two states, and whether one is a \<open>close\<close>.\<close>

definition calls_since :: "world \<Rightarrow> world \<Rightarrow> syscall list" where
  "calls_since w w' = drop (length (calls w)) (calls w')"

definition is_close :: "syscall \<Rightarrow> bool" where
  "is_close sc = (case sc of Close _ \<Rightarrow> True | _ \<Rightarrow> False)"

text \<open>
  A process in which \<open>LockProcess\<close> has not run: the static lock is zero-valued, and the
  standard descriptors 0, 1 and 2 are open.
\<close>

definition process_start :: world where
  "process_start =
    \<lparr>g_processLock = g_processLock_init, open_fds = {0, 1, 2}, files = {}, calls = [],
     diags = []\<rparr>"

text \<open>The lock file path that \<open>"%s/%s.pid"\<close> formats for a component.\<close>

definition lock_path :: "string \<Rightarrow> string" where
  "lock_path component = ''/tmp/run'' @ ''/'' @ c_str component @ ''.pid''"





text \<open>What \<open>strtol\<close> consumed, and whether it reported a range error.\<close>

definition consumed :: "char list \<Rightarrow> nat" where
  "consumed s = fst (snd (strtol s))"

definition overflowed :: "char list \<Rightarrow> bool" where
  "overflowed s \<longleftrightarrow> snd (snd (strtol s)) \<noteq> 0"

section \<open>Facts about buffers\<close>

lemma strlen_le_length: "strlen m \<le> length m"
  by (simp add: strlen_def length_takeWhile_le)

lemma take_strlen: "take (strlen s) s = c_str s"
  unfolding strlen_def c_str_def by (rule takeWhile_eq_take [symmetric])

lemma NUL_notin_take: "n \<le> strlen s \<Longrightarrow> NUL \<notin> set (take n s)"
proof -
  assume n: "n \<le> strlen s"
  have "take n s = take n (take (strlen s) s)" using n by (simp add: min_def)
  also have "\<dots> = take n (c_str s)" by (simp add: take_strlen)
  finally have "set (take n s) \<subseteq> set (c_str s)" by (simp add: set_take_subset)
  moreover have "NUL \<notin> set (c_str s)"
    unfolding c_str_def by (auto dest: set_takeWhileD)
  ultimately show ?thesis by blast
qed

lemma c_str_terminated: "NUL \<notin> set p \<Longrightarrow> c_str (p @ NUL # r) = p"
  by (induction p) (auto simp: c_str_def)

lemma strlen_terminated: "NUL \<notin> set p \<Longrightarrow> strlen (p @ NUL # r) = length p"
  by (induction p) (auto simp: strlen_def)

lemma strlen_c_str: "strlen m = length (c_str m)"
  by (simp add: strlen_def c_str_def)

lemma log_store: "log (store i b c) = log c"
  by (simp add: store_def)

lemma writes_store: "writes (store i b c) = writes c @ [i]"
  by (simp add: store_def)

lemma mem_store: "mem (store i b c) = map_option (\<lambda>m. m[i := b]) (mem c)"
  by (simp add: store_def)

lemma memcpy_0: "memcpy off s 0 c = c"
  by (simp add: memcpy_def)

lemma memcpy_Suc: "memcpy off s (Suc n) c = store (off + n) (s ! n) (memcpy off s n c)"
  by (simp add: memcpy_def)

lemma log_memcpy: "log (memcpy off s n c) = log c"
  by (induction n) (simp_all add: memcpy_0 memcpy_Suc log_store)

lemma writes_memcpy: "writes (memcpy off s n c) = writes c @ [off..<off + n]"
  by (induction n) (simp_all add: memcpy_0 memcpy_Suc writes_store)

lemma mem_memcpy_None: "mem c = None \<Longrightarrow> mem (memcpy off s n c) = None"
  by (induction n) (simp_all add: memcpy_0 memcpy_Suc mem_store)

lemma mem_memcpy:
  "mem c = Some m \<Longrightarrow> off + n \<le> length m \<Longrightarrow> n \<le> length s \<Longrightarrow>
   mem (memcpy off s n c) = Some (take off m @ take n s @ drop (off + n) m)"
proof (induction n)
  case 0
  then show ?case by (simp add: memcpy_0)
next
  case (Suc n)
  then have IH: "mem (memcpy off s n c) = Some (take off m @ take n s @ drop (off + n) m)"
    by simp
  have len: "off + n < length m" "n < length s" using Suc.prems by simp_all
  have "(take off m @ take n s @ drop (off + n) m)[off + n := s ! n]
        = take off m @ take n s @ (drop (off + n) m)[0 := s ! n]"
    using len by (simp add: list_update_append)
  also have "(drop (off + n) m)[0 := s ! n] = s ! n # drop (Suc (off + n)) m"
    using len by (metis Cons_nth_drop_Suc list_update_code(2))
  also have "take n s @ s ! n # drop (Suc (off + n)) m = take (Suc n) s @ drop (off + Suc n) m"
    using len by (simp add: take_Suc_conv_app_nth)
  finally show ?case
    by (simp add: memcpy_Suc mem_store IH)
qed


lemma strlen_nth_NUL: "strlen x < length x \<Longrightarrow> x ! strlen x = NUL"
  unfolding strlen_def using nth_length_takeWhile [of "\<lambda>b. b \<noteq> NUL" x] by simp

lemma strlen_le_index: "i < length x \<Longrightarrow> x ! i = NUL \<Longrightarrow> strlen x \<le> i"
proof (rule ccontr)
  assume i: "i < length x" and z: "x ! i = NUL" and "\<not> strlen x \<le> i"
  then have lt: "i < length (takeWhile (\<lambda>b. b \<noteq> NUL) x)" by (simp add: strlen_def)
  then have "takeWhile (\<lambda>b. b \<noteq> NUL) x ! i = x ! i" by (rule takeWhile_nth)
  moreover have "takeWhile (\<lambda>b. b \<noteq> NUL) x ! i \<in> set (takeWhile (\<lambda>b. b \<noteq> NUL) x)"
    using lt by (rule nth_mem)
  ultimately show False using z by (auto dest: set_takeWhileD)
qed

lemma len_store: "map_option length (mem (store i b c)) = map_option length (mem c)"
  by (cases "mem c") (simp_all add: mem_store)

lemma len_memcpy: "map_option length (mem (memcpy off s n c)) = map_option length (mem c)"
  by (induction n) (simp_all add: memcpy_0 memcpy_Suc len_store)

lemma len_report: "mem (report d c) = mem c"
  by (simp add: report_def)

lemma writes_report: "writes (report d c) = writes c"
  by (simp add: report_def)

lemma log_report: "log (report d c) = log c @ [d]"
  by (simp add: report_def)

lemma read_src_null [simp]: "read_src SrcNull c = None"
  by (simp add: read_src_def)

lemma read_src_apart [simp]: "read_src (SrcApart s) c = Some s"
  by (simp add: read_src_def)

lemma read_src_same [simp]: "read_src SrcIsDst c = mem c"
  by (simp add: read_src_def)

lemma memcpy_src_apart [simp]: "memcpy_src off (SrcApart s) n c = memcpy off s n c"
  by (simp add: memcpy_src_def)

lemma log_memcpy_src: "log (memcpy_src off src n c) = log c"
  by (simp add: memcpy_src_def log_memcpy split: option.splits)

lemma len_memcpy_src:
  "map_option length (mem (memcpy_src off src n c)) = map_option length (mem c)"
  by (simp add: memcpy_src_def len_memcpy split: option.splits)

lemma writes_memcpy_src:
  "writes (memcpy_src off src n c) = writes c \<or> writes (memcpy_src off src n c) = writes c @ [off..<off + n]"
  by (simp add: memcpy_src_def writes_memcpy split: option.splits)

lemma mem_copy_terminate:
  assumes "mem c = Some m" "off + n < length m" "n \<le> length s"
  shows "mem (store (off + n) NUL (memcpy off s n c))
         = Some (take off m @ take n s @ NUL # drop (Suc (off + n)) m)"
proof -
  have "mem (memcpy off s n c) = Some (take off m @ take n s @ drop (off + n) m)"
    using assms by (simp add: mem_memcpy)
  moreover have "(take off m @ take n s @ drop (off + n) m)[off + n := NUL]
        = take off m @ take n s @ (drop (off + n) m)[0 := NUL]"
    using assms by (simp add: list_update_append)
  moreover have "(drop (off + n) m)[0 := NUL] = NUL # drop (Suc (off + n)) m"
    using assms by (metis Cons_nth_drop_Suc list_update_code(2))
  ultimately show ?thesis by (simp add: mem_store)
qed

lemma mystrcpy_mem:
  assumes "1 \<le> c" "c \<le> length m"
  shows "mem (mystrcpy (Some m) c (SrcApart s))
         = Some (take (min (strlen s) (c - 1)) s @ NUL # drop (Suc (min (strlen s) (c - 1))) m)"
proof -
  define n where "n = min (strlen s) (c - 1)"
  have n: "n < length m" "n \<le> length s"
    using assms strlen_le_length [of s] unfolding n_def by arith+
  have m0: "\<And>d. mem (report d (store 0 NUL (start (Some m)))) = Some (m[0 := NUL])"
    "mem (store 0 NUL (start (Some m))) = Some (m[0 := NUL])"
    by (simp_all add: len_report mem_store start_def)
  have "\<And>c0. mem c0 = Some (m[0 := NUL]) \<Longrightarrow>
      mem (store n NUL (memcpy 0 s n c0)) = Some (take n s @ NUL # drop (Suc n) m)"
    using mem_copy_terminate [of _ "m[0 := NUL]" 0 n s] n by simp
  then show ?thesis
    using assms m0 unfolding mystrcpy_def Let_def n_def [symmetric]
    by (auto simp: n_def min_def)
qed

section \<open>Theorems about the string utilities\<close>

subsection \<open>The buffer invariant\<close>

lemma terminated_within_store:
  assumes "has_len n c0" "k < c" "c \<le> n"
  shows "terminated_within n c (store k NUL c0)"
proof -
  from assms(1) obtain m0 where m0: "mem c0 = Some m0" "length m0 = n"
    by (cases "mem c0") (auto simp: has_len_def)
  let ?m = "m0[k := NUL]"
  have k: "k < length ?m" using assms m0 by simp
  then have z: "?m ! k = NUL" by simp
  have "strlen ?m \<le> k" using k z by (rule strlen_le_index)
  moreover from this k have "?m ! strlen ?m = NUL" by (intro strlen_nth_NUL) simp
  ultimately show ?thesis using m0 assms by (simp add: terminated_within_def mem_store)
qed

lemma terminated_within_report: "terminated_within n c (report d r) = terminated_within n c r"
  by (simp add: terminated_within_def len_report)

lemma writes_below_store: "writes_below c (store i b r) \<longleftrightarrow> writes_below c r \<and> i < c"
  by (simp add: writes_below_def writes_store)

lemma writes_below_report: "writes_below c (report d r) = writes_below c r"
  by (simp add: writes_below_def writes_report)

lemma writes_below_memcpy: "off + n \<le> c \<Longrightarrow> writes_below c (memcpy off s n r) = writes_below c r"
  by (auto simp: writes_below_def writes_memcpy list_all_iff)

lemma writes_below_start: "writes_below c (start d)"
  by (simp add: writes_below_def start_def)

lemma has_len_start: "has_len n (start (Some m)) \<longleftrightarrow> n = length m"
  by (auto simp: has_len_def start_def)

lemma has_len_store: "has_len n (store i b r) = has_len n r"
  by (simp only: has_len_def len_store)

lemma has_len_memcpy: "has_len n (memcpy off s k r) = has_len n r"
  by (simp only: has_len_def len_memcpy)

lemma has_len_report: "has_len n (report d r) = has_len n r"
  by (simp only: has_len_def len_report)

lemma untouched_start: "untouched m (start (Some m))"
  by (simp add: untouched_def start_def)

lemma untouched_report: "untouched m (report d r) = untouched m r"
  by (simp add: untouched_def report_def)

lemma has_len_memcpy_src: "has_len n (memcpy_src off src k r) = has_len n r"
  by (simp only: has_len_def len_memcpy_src)

lemma writes_below_memcpy_src:
  "off + n \<le> c \<Longrightarrow> writes_below c (memcpy_src off src n r) = writes_below c r"
  by (simp add: memcpy_src_def writes_below_memcpy split: option.splits)

lemmas len_simps = has_len_store has_len_memcpy has_len_memcpy_src has_len_report has_len_start
lemmas wb_simps = writes_below_store writes_below_report writes_below_memcpy
  writes_below_memcpy_src writes_below_start

lemma mystrcpy_ok:
  assumes "1 \<le> c" "c \<le> length m"
  shows "bounded_buffer_ok m c (mystrcpy (Some m) c src)"
proof -
  have tw: "terminated_within (length m) c (mystrcpy (Some m) c src)"
    using assms unfolding mystrcpy_def Let_def
    by (auto simp: terminated_within_report len_simps intro!: terminated_within_store split: option.splits)
  have wb: "writes_below c (mystrcpy (Some m) c src)"
    using assms unfolding mystrcpy_def Let_def
    by (auto simp: wb_simps split: option.splits)
  show ?thesis using tw wb by (simp add: bounded_buffer_ok_def)
qed

lemma mystrcat_ok:
  assumes "1 \<le> c" "c \<le> length m"
  shows "bounded_buffer_ok m c (mystrcat (Some m) c src)"
proof -
  have tw: "untouched m (mystrcat (Some m) c src) \<or> terminated_within (length m) c (mystrcat (Some m) c src)"
    using assms unfolding mystrcat_def Let_def
    by (auto simp: untouched_report untouched_start len_simps intro!: terminated_within_store split: option.splits)
  have wb: "writes_below c (mystrcat (Some m) c src)"
    using assms unfolding mystrcat_def Let_def
    by (auto simp: wb_simps split: option.splits)
  show ?thesis using tw wb by (simp add: bounded_buffer_ok_def)
qed

lemma vsnprintf_len: "has_len n (snd (vsnprintf sz oc r)) = has_len n r"
  by (simp add: vsnprintf_def Let_def len_simps split: fmt_outcome.splits)

lemma vsnprintf_writes_below: "writes_below sz r \<Longrightarrow> writes_below sz (snd (vsnprintf sz oc r))"
  by (cases sz) (auto simp: vsnprintf_def Let_def wb_simps split: fmt_outcome.splits)

lemma mysprintf_ok:
  assumes "1 \<le> c" "c \<le> length m"
  shows "bounded_buffer_ok m c (mysprintf (Some m) c fmt oc)"
proof -
  let ?c0 = "store 0 NUL (start (Some m))"
  have c0: "has_len (length m) ?c0" "writes_below c ?c0"
    using assms by (simp_all add: len_simps wb_simps)
  obtain n c1 where v: "vsnprintf c oc ?c0 = (n, c1)" by (cases "vsnprintf c oc ?c0")
  have c1: "has_len (length m) c1" "writes_below c c1"
    using vsnprintf_len [of "length m" c oc ?c0] vsnprintf_writes_below [of c ?c0 oc] c0 v by simp_all
  have fit: "terminated_within (length m) c c1" if "0 \<le> n" "nat n < c"
  proof (cases oc)
    case (Formatted out)
    with v that have "length out < c" "c1 = store (length out) NUL (memcpy 0 out (length out) ?c0)"
      using assms by (auto simp: vsnprintf_def Let_def min_def)
    then show ?thesis using assms by (auto simp: len_simps intro!: terminated_within_store)
  next
    case (FormatError junk)
    with v that show ?thesis by (simp add: vsnprintf_def)
  qed
  have tw: "terminated_within (length m) c (mysprintf (Some m) c fmt oc)"
    using assms c1 fit unfolding mysprintf_def Let_def v
    by (auto simp: terminated_within_report len_simps intro!: terminated_within_store)
  have wb: "writes_below c (mysprintf (Some m) c fmt oc)"
    using assms c1 unfolding mysprintf_def Let_def v
    by (auto simp: wb_simps)
  show ?thesis using tw wb by (simp add: bounded_buffer_ok_def)
qed

text \<open>
  C1. For a destination buffer of declared capacity \<open>c \<ge> 1\<close> (and at least \<open>c\<close>
  bytes long), every call of \<open>mystrcpy\<close>, \<open>mystrcat\<close> or \<open>mysprintf\<close> either
  returns without a store to the buffer or leaves in it a terminator at an index below
  \<open>c\<close>, that is a null-terminated string of length less than \<open>c\<close>; and every index
  stored to is below \<open>c\<close>. With a \<open>NULL\<close> destination nothing is stored.
\<close>

theorem bounded_buffer_invariant:
  assumes "1 \<le> c" "c \<le> length m"
  shows "bounded_buffer_ok m c (mystrcpy (Some m) c src) \<and>
         bounded_buffer_ok m c (mystrcat (Some m) c src) \<and>
         bounded_buffer_ok m c (mysprintf (Some m) c fmt oc) \<and>
         writes (mystrcpy None c src) = [] \<and>
         writes (mystrcat None c src) = [] \<and>
         writes (mysprintf None c fmt oc) = []"
proof -
  have "writes (mystrcpy None c src) = []" "writes (mystrcat None c src) = []"
    "writes (mysprintf None c fmt oc) = []"
    by (simp_all add: mystrcpy_def mystrcat_def mysprintf_def writes_report start_def)
  then show ?thesis
    using assms by (simp add: mystrcpy_ok mystrcat_ok mysprintf_ok)
qed

theorem bounded_buffer_invariant_witness:
  "(1::nat) \<le> 4 \<and> 4 \<le> length ''abcdef'' \<and>
   bounded_buffer_ok ''abcdef'' 4 (mystrcpy (Some ''abcdef'') 4 (SrcApart ''xyzuvw'')) \<and>
   bounded_buffer_ok ''abcdef'' 4 (mystrcat (Some ''abcdef'') 4 (SrcApart ''xyzuvw'')) \<and>
   bounded_buffer_ok ''abcdef'' 4 (mysprintf (Some ''abcdef'') 4 (Some ''%s'') (Formatted ''12345''))"
  using bounded_buffer_invariant [of 4 "''abcdef''" "SrcApart ''xyzuvw''" "Some ''%s''" "Formatted ''12345''"]
  by simp

subsection \<open>mystrcpy\<close>

lemma mystrcpy_log:
  "1 \<le> c \<Longrightarrow> log (mystrcpy (Some m) c (SrcApart s))
     = (if c \<le> strlen s
        then [ErrPrint (''mystrcpy buffer overflow on '' @ [CHR 0x27] @ ''%s'' @ [CHR 0x27])]
        else [])"
  by (simp add: mystrcpy_def Let_def log_store log_memcpy log_report start_def)

lemma mystrcpy_content:
  assumes "1 \<le> c" "c \<le> length m"
  shows "content (mystrcpy (Some m) c (SrcApart s)) = Some (take (min (strlen s) (c - 1)) s)"
proof -
  have "NUL \<notin> set (take (min (strlen s) (c - 1)) s)" by (rule NUL_notin_take) simp
  then show ?thesis
    using assms by (simp add: content_def mystrcpy_mem c_str_terminated)
qed

lemma take_c_str: "n \<le> strlen s \<Longrightarrow> take n (c_str s) = take n s"
  by (simp add: take_strlen [symmetric] min_def)

lemma strlen_update0: "strlen (m[0 := NUL]) = 0"
  by (cases m) (simp_all add: strlen_def)

lemma c_str_update0: "m \<noteq> [] \<Longrightarrow> c_str (m[0 := NUL]) = []"
  by (cases m) (simp_all add: c_str_def)

lemma mystrcpy_same:
  assumes "1 \<le> c"
  shows "mystrcpy (Some m) c SrcIsDst = store 0 NUL (store 0 NUL (start (Some m)))"
proof -
  let ?c0 = "store 0 NUL (start (Some m))"
  have r: "read_src SrcIsDst ?c0 = Some (m[0 := NUL])"
    by (simp add: mem_store start_def)
  have "memcpy_src 0 SrcIsDst 0 ?c0 = ?c0"
    by (simp add: memcpy_src_def r memcpy_0 del: read_src_same)
  then show ?thesis
    using assms unfolding mystrcpy_def Let_def r
    by (simp add: strlen_update0 del: read_src_same)
qed

lemma mystrcpy_same_mem:
  "1 \<le> c \<Longrightarrow> mem (mystrcpy (Some m) c SrcIsDst) = Some (m[0 := NUL])"
  by (simp add: mystrcpy_same mem_store start_def)

text \<open>
  C2, as the claim states it, fails when the source is the destination: \<open>mystrcpy\<close>
  stores the terminator at \<open>dst[0]\<close> before it takes the length of the source, so
  \<open>mystrcpy(dst, 8, dst)\<close> on a buffer holding \<open>"abc"\<close> leaves the empty string.
\<close>

theorem mystrcpy_source_is_destination:
  "c_str (''abc'' @ [NUL, NUL, NUL, NUL, NUL]) = ''abc'' \<and>
   strlen (''abc'' @ [NUL, NUL, NUL, NUL, NUL]) < 8 \<and>
   content (mystrcpy (Some (''abc'' @ [NUL, NUL, NUL, NUL, NUL])) 8 SrcIsDst) = Some []"
  by (simp add: content_def mystrcpy_same_mem c_str_def strlen_def NUL_def)

text \<open>
  C2, amended. For a capacity \<open>c \<ge> 1\<close>, a destination of at least \<open>c\<close> bytes and a source
  string stored apart from the destination, \<open>mystrcpy\<close> leaves exactly the source string in
  the buffer when its length is below \<open>c\<close>, without a diagnostic; otherwise it leaves the
  first \<open>c - 1\<close> bytes of the source string, terminated, and reports the truncation. When
  the source pointer is the destination pointer, it leaves the empty string, without a
  diagnostic.
\<close>

theorem mystrcpy_result:
  assumes "1 \<le> c" "c \<le> length m"
  shows "(strlen s < c \<longrightarrow>
            content (mystrcpy (Some m) c (SrcApart s)) = Some (c_str s) \<and>
            log (mystrcpy (Some m) c (SrcApart s)) = []) \<and>
         (c \<le> strlen s \<longrightarrow>
            content (mystrcpy (Some m) c (SrcApart s)) = Some (take (c - 1) (c_str s)) \<and>
            log (mystrcpy (Some m) c (SrcApart s))
              = [ErrPrint (''mystrcpy buffer overflow on '' @ [CHR 0x27] @ ''%s'' @ [CHR 0x27])]) \<and>
         content (mystrcpy (Some m) c SrcIsDst) = Some [] \<and>
         log (mystrcpy (Some m) c SrcIsDst) = []"
proof (intro conjI impI)
  assume fit: "strlen s < c"
  then have "min (strlen s) (c - 1) = strlen s" by simp
  then show "content (mystrcpy (Some m) c (SrcApart s)) = Some (c_str s)"
    using assms by (simp add: mystrcpy_content take_strlen)
  show "log (mystrcpy (Some m) c (SrcApart s)) = []"
    using assms fit by (simp add: mystrcpy_log)
next
  assume big: "c \<le> strlen s"
  then have "min (strlen s) (c - 1) = c - 1" by simp
  moreover have "take (c - 1) (c_str s) = take (c - 1) s"
    using big by (intro take_c_str) simp
  ultimately show "content (mystrcpy (Some m) c (SrcApart s)) = Some (take (c - 1) (c_str s))"
    using assms by (simp add: mystrcpy_content)
  show "log (mystrcpy (Some m) c (SrcApart s))
          = [ErrPrint (''mystrcpy buffer overflow on '' @ [CHR 0x27] @ ''%s'' @ [CHR 0x27])]"
    using assms big by (simp add: mystrcpy_log)
next
  have "m \<noteq> []" using assms by auto
  then show "content (mystrcpy (Some m) c SrcIsDst) = Some []"
    using assms by (simp add: content_def mystrcpy_same_mem c_str_update0)
  show "log (mystrcpy (Some m) c SrcIsDst) = []"
    using assms by (simp add: mystrcpy_same log_store start_def)
qed

theorem mystrcpy_result_witness:
  "(1::nat) \<le> 4 \<and> 4 \<le> length ''abcdef'' \<and>
   strlen ''hi'' < 4 \<and> content (mystrcpy (Some ''abcdef'') 4 (SrcApart ''hi'')) = Some ''hi'' \<and>
   4 \<le> strlen ''xyzuvw'' \<and> content (mystrcpy (Some ''abcdef'') 4 (SrcApart ''xyzuvw'')) = Some ''xyz'' \<and>
   content (mystrcpy (Some ''abcdef'') 4 SrcIsDst) = Some []"
  using mystrcpy_result [of 4 "''abcdef''" "''hi''"] mystrcpy_result [of 4 "''abcdef''" "''xyzuvw''"]
  by (simp add: strlen_def c_str_def NUL_def)

subsection \<open>mysprintf\<close>

lemma mem_start_store0: "mem (store 0 NUL (start (Some m))) = Some (m[0 := NUL])"
  by (simp add: mem_store start_def)

lemma update_at_terminator: "(p @ NUL # r)[length p := NUL] = p @ NUL # r"
  by (simp add: list_update_append)

lemma mysprintf_mem:
  assumes "1 \<le> c" "c \<le> length m"
  shows "mem (mysprintf (Some m) c (Some f) (Formatted out))
         = Some (take (min (length out) (c - 1)) out @ NUL # drop (Suc (min (length out) (c - 1))) m)"
proof -
  define k where "k = min (length out) (c - 1)"
  let ?c0 = "store 0 NUL (start (Some m))"
  let ?c1 = "store k NUL (memcpy 0 out k ?c0)"
  have k: "k < length m" "k \<le> length out" "length (take k out) = k" "k < c"
    using assms unfolding k_def by (simp, simp, simp, arith)
  have v: "vsnprintf c (Formatted out) ?c0 = (int (length out), ?c1)"
    using assms by (simp add: vsnprintf_def Let_def k_def)
  have c1: "mem ?c1 = Some (take k out @ NUL # drop (Suc k) m)"
    using mem_copy_terminate [of ?c0 "m[0 := NUL]" 0 k out] k by (simp add: mem_start_store0)
  have over: "mem (store (c - 1) NUL (report d ?c1)) = Some (take k out @ NUL # drop (Suc k) m)"
    if "c \<le> length out" for d
  proof -
    from that have kc: "c - 1 = k" using assms unfolding k_def by arith
    have "mem (store (c - 1) NUL (report d ?c1)) = map_option (\<lambda>x. x[k := NUL]) (mem ?c1)"
      by (simp only: mem_store len_report kc)
    also have "\<dots> = Some ((take k out @ NUL # drop (Suc k) m)[k := NUL])"
      by (simp only: c1 option.map)
    also have "(take k out @ NUL # drop (Suc k) m)[k := NUL] = take k out @ NUL # drop (Suc k) m"
      by (metis k(3) update_at_terminator)
    finally show ?thesis .
  qed
  show ?thesis
    using assms c1 over unfolding mysprintf_def Let_def v k_def [symmetric]
    by simp
qed

lemma mysprintf_log:
  "1 \<le> c \<Longrightarrow> log (mysprintf (Some m) c (Some f) (Formatted out))
     = (if c \<le> length out then [ErrPrint ''mysprintf buffer overflow''] else [])"
  by (simp add: mysprintf_def vsnprintf_def Let_def log_store log_memcpy log_report start_def)

lemma content_store0:
  assumes "has_len n r" "0 < n"
  shows "content (store 0 NUL r) = Some []"
proof -
  from assms obtain m0 where m0: "mem r = Some m0" "m0 \<noteq> []"
    by (cases "mem r") (auto simp: has_len_def)
  then obtain x xs where "m0 = x # xs" by (cases m0) auto
  with m0 show ?thesis by (simp add: content_def mem_store c_str_def)
qed

lemma content_report: "content (report d r) = content r"
  by (simp add: content_def len_report)




lemma mysprintf_null_dst:
  "mysprintf None c fmt oc = \<lparr>mem = None, writes = [], log = [ErrPrint ''mysprintf null dst'']\<rparr>"
  by (simp add: mysprintf_def report_def start_def)

lemma mysprintf_zero_size:
  "mysprintf (Some m) 0 fmt oc
     = \<lparr>mem = Some m, writes = [], log = [ErrPrint ''mysprintf invalid dst size'']\<rparr>"
  by (simp add: mysprintf_def report_def start_def)

lemma mysprintf_null_fmt:
  assumes "1 \<le> c" "c \<le> length m"
  shows "content (mysprintf (Some m) c None oc) = Some []"
    and "writes (mysprintf (Some m) c None oc) = [0]"
    and "log (mysprintf (Some m) c None oc) = [ErrPrint ''mysprintf null fmt'']"
proof -
  have "0 < length m" using assms by arith
  then have "content (store 0 NUL (start (Some m))) = Some []"
    by (intro content_store0 [of "length m"]) (simp_all add: has_len_def start_def)
  then show "content (mysprintf (Some m) c None oc) = Some []"
    using assms by (simp add: mysprintf_def Let_def content_report)
  show "writes (mysprintf (Some m) c None oc) = [0]"
    using assms by (simp add: mysprintf_def Let_def writes_report writes_store start_def)
  show "log (mysprintf (Some m) c None oc) = [ErrPrint ''mysprintf null fmt'']"
    using assms by (simp add: mysprintf_def Let_def log_report log_store start_def)
qed

text \<open>
  C6, as the claim states it, fails: with a destination and a capacity below 1,
  \<open>mysprintf\<close> returns before its first store, so the destination keeps its content and
  is not left empty.
\<close>

theorem mysprintf_zero_capacity_untouched:
  "content (mysprintf (Some ''abc'') 0 (Some ''%d'') (Formatted ''7'')) \<noteq> Some [] \<and>
   untouched ''abc'' (mysprintf (Some ''abc'') 0 (Some ''%d'') (Formatted ''7''))"
  by (simp add: mysprintf_zero_size content_def untouched_def c_str_def NUL_def)

text \<open>
  C6, amended. Each violated precondition of \<open>mysprintf\<close> is reported. Without a
  destination, and with a destination but a capacity below 1, nothing is stored and the
  destination keeps its content; with a destination of capacity \<open>c \<ge> 1\<close> and no format,
  the destination is left holding the empty string.
\<close>

theorem mysprintf_precondition_violations:
  assumes "1 \<le> c" "c \<le> length m"
  shows "mysprintf None c' fmt oc
           = \<lparr>mem = None, writes = [], log = [ErrPrint ''mysprintf null dst'']\<rparr> \<and>
         mysprintf (Some m) 0 fmt oc
           = \<lparr>mem = Some m, writes = [], log = [ErrPrint ''mysprintf invalid dst size'']\<rparr> \<and>
         content (mysprintf (Some m) c None oc) = Some [] \<and>
         log (mysprintf (Some m) c None oc) = [ErrPrint ''mysprintf null fmt'']"
  using assms by (simp add: mysprintf_null_dst mysprintf_zero_size mysprintf_null_fmt)

theorem mysprintf_precondition_violations_witness:
  "(1::nat) \<le> 4 \<and> 4 \<le> length ''abcdef'' \<and>
   content (mysprintf (Some ''abcdef'') 4 None (Formatted ''7'')) = Some [] \<and>
   log (mysprintf (Some ''abcdef'') 4 None (Formatted ''7'')) = [ErrPrint ''mysprintf null fmt''] \<and>
   mem (mysprintf (Some ''abcdef'') 0 None (Formatted ''7'')) = Some ''abcdef''"
  using mysprintf_precondition_violations [of 4 "''abcdef''" 0 None "Formatted ''7''"]
  by simp

subsection \<open>mystrcat after mystrcpy\<close>

lemma NUL_notin_c_str: "NUL \<notin> set (c_str s)"
  unfolding c_str_def by (auto dest: set_takeWhileD)

lemma strlen_append: "NUL \<notin> set a \<Longrightarrow> strlen (a @ b) = length a + strlen b"
  by (induction a) (auto simp: strlen_def)

lemma strlen_cat: "strlen (c_str s1 @ c_str s2) = strlen s1 + strlen s2"
proof -
  have "strlen (c_str s2) = strlen s2"
    using strlen_append [of "c_str s2" "[]"] NUL_notin_c_str [of s2]
    by (simp add: strlen_c_str [of s2]) (simp add: strlen_def)
  then show ?thesis
    using strlen_append [of "c_str s1" "c_str s2"] NUL_notin_c_str [of s1]
    by (simp add: strlen_c_str [of s1])
qed

lemma min_split: "min (a + b) (C::nat) = min a C + min b (C - min a C)"
  by arith

lemma take_cat:
  "take (min (strlen s1) C + min (strlen s2) (C - min (strlen s1) C)) (c_str s1 @ c_str s2)
   = take (min (strlen s1) C) s1 @ take (min (strlen s2) (C - min (strlen s1) C)) s2"
proof (cases "strlen s1 < C")
  case True
  then have n1: "min (strlen s1) C = strlen s1" by simp
  have "take (min (strlen s2) (C - strlen s1)) (c_str s2) = take (min (strlen s2) (C - strlen s1)) s2"
    by (rule take_c_str) simp
  then show ?thesis
    by (simp add: n1 take_strlen strlen_c_str [symmetric])
next
  case False
  then have n1: "min (strlen s1) C = C" by simp
  have "take C (c_str s1) = take C s1" using False by (intro take_c_str) simp
  moreover have "C \<le> length (c_str s1)" using False by (simp add: strlen_c_str [symmetric])
  ultimately show ?thesis by (simp add: n1)
qed

lemma mystrcat_unfold:
  assumes "1 \<le> c" "strlen m < c" "1 \<le> strlen s"
  shows "mystrcat (Some m) c (SrcApart s)
         = (let k = min (strlen s) (c - 1 - strlen m);
                c0 = (if c - 1 - strlen m < strlen s
                      then report (ErrPrint ''mystrcat buffer overflow'') (start (Some m))
                      else start (Some m))
            in if 0 < k then store (strlen m + k) NUL (memcpy (strlen m) s k c0) else c0)"
  using assms by (simp add: mystrcat_def Let_def min_def)

lemma mystrcat_mem:
  assumes "c \<le> length m"
  shows "mem (mystrcat (Some m) c (SrcApart s))
         = Some (if 1 \<le> c \<and> strlen m < c \<and> 0 < min (strlen s) (c - 1 - strlen m)
                 then take (strlen m) m @ take (min (strlen s) (c - 1 - strlen m)) s
                      @ NUL # drop (Suc (strlen m + min (strlen s) (c - 1 - strlen m))) m
                 else m)"
proof (cases "1 \<le> c \<and> strlen m < c \<and> 0 < min (strlen s) (c - 1 - strlen m)")
  case False
  then show ?thesis
    by (auto simp: mystrcat_def Let_def len_report start_def min_def split: if_splits)
next
  case True
  define k where "k = min (strlen s) (c - 1 - strlen m)"
  define c0 where "c0 = (if c - 1 - strlen m < strlen s
                      then report (ErrPrint ''mystrcat buffer overflow'') (start (Some m))
                      else start (Some m))"
  have k: "0 < k" "strlen m + k < length m" "k \<le> length s"
    using True assms strlen_le_length [of s] unfolding k_def by arith+
  have c0: "mem c0 = Some m"
    by (simp add: c0_def start_def len_report)
  have "1 \<le> strlen s" using True by auto
  with True have u: "mystrcat (Some m) c (SrcApart s)
         = (let k = min (strlen s) (c - 1 - strlen m);
                c0 = (if c - 1 - strlen m < strlen s
                      then report (ErrPrint ''mystrcat buffer overflow'') (start (Some m))
                      else start (Some m))
            in if 0 < k then store (strlen m + k) NUL (memcpy (strlen m) s k c0) else c0)"
    by (intro mystrcat_unfold) auto
  have "mystrcat (Some m) c (SrcApart s) = store (strlen m + k) NUL (memcpy (strlen m) s k c0)"
    unfolding u Let_def k_def [symmetric] c0_def [symmetric] using k(1) by (simp only: if_True)
  moreover have "mem (store (strlen m + k) NUL (memcpy (strlen m) s k c0))
              = Some (take (strlen m) m @ take k s @ NUL # drop (Suc (strlen m + k)) m)"
    using c0 k(2,3) by (rule mem_copy_terminate)
  ultimately show ?thesis using True by (simp add: k_def)
qed

lemma mystrcat_empty:
  "strlen s = 0 \<Longrightarrow> mem (mystrcat dst c (SrcApart s)) = dst \<and> writes (mystrcat dst c (SrcApart s)) = []"
  by (auto simp: mystrcat_def Let_def report_def start_def split: option.splits)

lemma copy_then_append:
  assumes "c \<le> length m"
  shows "mem (mystrcat (mem (mystrcpy (Some m) c (SrcApart s1))) c (SrcApart s2))
         = mem (mystrcpy (Some m) c (SrcApart (c_str s1 @ c_str s2)))"
proof (cases "c = 0")
  case True
  then show ?thesis
    by (simp add: mystrcpy_def mystrcat_def report_def start_def)
next
  case False
  then have c1: "1 \<le> c" by simp
  define n1 where "n1 = min (strlen s1) (c - 1)"
  define k where "k = min (strlen s2) (c - 1 - n1)"
  define m1 where "m1 = take n1 s1 @ NUL # drop (Suc n1) m"
  have n1: "n1 \<le> strlen s1" "n1 < c" "n1 < length m" "length (take n1 s1) = n1"
    using c1 assms strlen_le_length [of s1] unfolding n1_def by (simp, arith, arith, simp)
  have nz: "NUL \<notin> set (take n1 s1)" using n1(1) by (rule NUL_notin_take)
  have cp: "mem (mystrcpy (Some m) c (SrcApart s1)) = Some m1"
    using c1 assms by (simp add: mystrcpy_mem n1_def m1_def)
  have len1: "length m1 = length m" using n1 by (simp add: m1_def)
  have sl1: "strlen m1 = n1" using nz n1(4) by (simp add: m1_def strlen_terminated)
  have cat: "mem (mystrcat (Some m1) c (SrcApart s2))
              = Some (if 0 < k
                      then take n1 m1 @ take k s2 @ NUL # drop (Suc (n1 + k)) m1
                      else m1)"
    using mystrcat_mem [of c m1 s2] assms c1 n1(2) by (simp add: len1 sl1 k_def)
  have "mem (mystrcpy (Some m) c (SrcApart (c_str s1 @ c_str s2)))
        = Some (take (n1 + k) (c_str s1 @ c_str s2) @ NUL # drop (Suc (n1 + k)) m)"
    using c1 assms min_split [of "strlen s1" "strlen s2" "c - 1"]
    by (simp add: mystrcpy_mem strlen_cat n1_def k_def)
  also have "take (n1 + k) (c_str s1 @ c_str s2) = take n1 s1 @ take k s2"
    unfolding n1_def k_def by (rule take_cat)
  finally have rhs: "mem (mystrcpy (Some m) c (SrcApart (c_str s1 @ c_str s2)))
        = Some (take n1 s1 @ take k s2 @ NUL # drop (Suc (n1 + k)) m)" by simp
  have t: "take n1 m1 = take n1 s1" using n1(4) by (simp add: m1_def)
  have d: "drop (Suc (n1 + k)) m1 = drop (Suc (n1 + k)) m"
    using n1(4) by (simp add: m1_def add.commute)
  show ?thesis
  proof (cases "0 < k")
    case True
    then show ?thesis by (simp add: cp cat rhs t d)
  next
    case False
    then have "mem (mystrcat (Some m1) c (SrcApart s2)) = Some m1" by (simp add: cat)
    moreover have "take n1 s1 @ take k s2 @ NUL # drop (Suc (n1 + k)) m = m1"
      using False by (simp add: m1_def)
    ultimately show ?thesis by (simp add: cp rhs)
  qed
qed

lemma mystrcat_same_empty:
  "strlen m = 0 \<Longrightarrow>
   mem (mystrcat (Some m) c SrcIsDst) = Some m \<and> writes (mystrcat (Some m) c SrcIsDst) = []"
  by (auto simp: mystrcat_def Let_def report_def start_def)

text \<open>
  C7, as the claim states it, fails when the string copied is the one in the buffer:
  \<open>mystrcpy(dst, 8, dst)\<close> on a buffer holding \<open>"abc"\<close> empties it, so appending \<open>"de"\<close>
  leaves \<open>"de"\<close>, where one copy of the concatenation leaves \<open>"abcde"\<close>.
\<close>

theorem mystrcpy_of_destination_then_mystrcat:
  "c_str (''abc'' @ [NUL, NUL, NUL, NUL, NUL]) = ''abc'' \<and>
   content (mystrcat (mem (mystrcpy (Some (''abc'' @ [NUL, NUL, NUL, NUL, NUL])) 8 SrcIsDst)) 8
              (SrcApart ''de'')) = Some ''de'' \<and>
   content (mystrcpy (Some (''abc'' @ [NUL, NUL, NUL, NUL, NUL])) 8 (SrcApart (''abc'' @ ''de'')))
     = Some ''abcde''"
  by (simp add: content_def mystrcpy_same_mem mystrcat_mem mystrcpy_mem strlen_def c_str_def
      NUL_def)

text \<open>
  C7, amended. Appending the empty string with \<open>mystrcat\<close> stores nothing and leaves the
  destination as it was, whatever the destination and the capacity, also when the source
  is the destination and it holds the empty string. For a buffer of at least \<open>c\<close> bytes
  and strings \<open>s1\<close> and \<open>s2\<close> stored apart from it, \<open>mystrcpy\<close> of \<open>s1\<close> followed by
  \<open>mystrcat\<close> of \<open>s2\<close>, both with capacity \<open>c\<close>, leaves the same bytes in the buffer as
  one \<open>mystrcpy\<close> of the concatenation of the two strings, truncation to \<open>c - 1\<close> bytes
  included; with a \<open>NULL\<close> destination both do nothing.
\<close>

theorem mystrcat_after_mystrcpy:
  assumes "c \<le> length m"
  shows "(strlen s = 0 \<longrightarrow>
            mem (mystrcat dst c' (SrcApart s)) = dst \<and> writes (mystrcat dst c' (SrcApart s)) = []) \<and>
         (strlen m' = 0 \<longrightarrow>
            mem (mystrcat (Some m') c' SrcIsDst) = Some m' \<and>
            writes (mystrcat (Some m') c' SrcIsDst) = []) \<and>
         mem (mystrcat (mem (mystrcpy (Some m) c (SrcApart s1))) c (SrcApart s2))
           = mem (mystrcpy (Some m) c (SrcApart (c_str s1 @ c_str s2))) \<and>
         mem (mystrcat (mem (mystrcpy None c (SrcApart s1))) c (SrcApart s2))
           = mem (mystrcpy None c (SrcApart (c_str s1 @ c_str s2)))"
proof (intro conjI impI)
  show "mem (mystrcat (mem (mystrcpy None c (SrcApart s1))) c (SrcApart s2))
           = mem (mystrcpy None c (SrcApart (c_str s1 @ c_str s2)))"
    by (simp add: mystrcpy_def mystrcat_def report_def start_def)
qed (use assms in \<open>simp_all add: mystrcat_empty mystrcat_same_empty copy_then_append\<close>)

theorem mystrcat_after_mystrcpy_witness:
  "6 \<le> length ''......'' \<and> strlen [] = 0 \<and>
   mem (mystrcat (Some ''ab'') 6 (SrcApart [])) = Some ''ab'' \<and>
   mem (mystrcat (Some [NUL, CHR ''x'']) 6 SrcIsDst) = Some [NUL, CHR ''x''] \<and>
   mem (mystrcat (mem (mystrcpy (Some ''......'') 6 (SrcApart ''abc''))) 6 (SrcApart ''defg''))
     = mem (mystrcpy (Some ''......'') 6 (SrcApart (c_str ''abc'' @ c_str ''defg''))) \<and>
   content (mystrcpy (Some ''......'') 6 (SrcApart (c_str ''abc'' @ c_str ''defg''))) = Some ''abcde''"
proof -
  have "content (mystrcpy (Some ''......'') 6 (SrcApart (c_str ''abc'' @ c_str ''defg''))) = Some ''abcde''"
    by (simp add: mystrcpy_content strlen_def c_str_def NUL_def)
  then show ?thesis
    using mystrcat_after_mystrcpy [of 6 "''......''" "[]" "Some ''ab''" 6 "[NUL, CHR ''x'']"
        "''abc''" "''defg''"]
    by (simp add: strlen_def)
qed

section \<open>Theorems about the process lock\<close>

declare digits.simps [simp del]

lemma digit_char_not_NUL: "d < 10 \<Longrightarrow> char_of (48 + d :: nat) \<noteq> NUL"
proof
  assume d: "d < 10" and "char_of (48 + d) = NUL"
  then have "(of_char (char_of (48 + d)) :: nat) = of_char NUL" by simp
  then show False using d by (simp add: NUL_def)
qed

lemma digits_no_NUL: "NUL \<notin> set (digits n)"
proof (induction n rule: digits.induct)
  case (1 n)
  show ?case
  proof (cases "n < 10")
    case True
    then show ?thesis using digit_char_not_NUL [of n] by (simp add: digits.simps [of n])
  next
    case False
    have "n mod 10 < 10" by simp
    then have "char_of (48 + n mod 10) \<noteq> NUL" by (rule digit_char_not_NUL)
    with False 1 show ?thesis by (auto simp: digits.simps [of n])
  qed
qed

lemma digits_length: "0 < k \<Longrightarrow> n < 10 ^ k \<Longrightarrow> length (digits n) \<le> k"
proof (induction k arbitrary: n)
  case 0
  then show ?case by simp
next
  case (Suc k)
  show ?case
  proof (cases "n < 10")
    case True
    then show ?thesis by (simp add: digits.simps [of n])
  next
    case False
    with Suc.prems have k: "0 < k" by (cases k) auto
    have "n div 10 < 10 ^ k" using Suc.prems by (simp add: less_mult_imp_div_less mult.commute)
    with k have "length (digits (n div 10)) \<le> k" by (rule Suc.IH)
    with False show ?thesis by (simp add: digits.simps [of n])
  qed
qed

lemma show_int_no_NUL: "NUL \<notin> set (show_int i)"
  using digits_no_NUL by (simp add: show_int_def NUL_def)

lemma show_int_pid_length: "length (show_int (sint (p :: 32 word))) \<le> 11"
proof -
  have r: "- 2147483648 \<le> sint p" "sint p < 2147483648"
    using sint_ge [of p] sint_lt [of p] by simp_all
  show ?thesis
  proof (cases "sint p < 0")
    case True
    then have "nat (- sint p) < 10 ^ 10" using r by simp
    then have "length (digits (nat (- sint p))) \<le> 10" by (intro digits_length) simp_all
    with True show ?thesis by (simp add: show_int_def)
  next
    case False
    then have "nat (sint p) < 10 ^ 10" using r by simp
    then have "length (digits (nat (sint p))) \<le> 10" by (intro digits_length) simp_all
    with False show ?thesis by (simp add: show_int_def)
  qed
qed

lemma PATH_MAX_pos: "1 \<le> PATH_MAX"
  by (simp add: PATH_MAX_def)

lemma mysprintfW_snd:
  "1 \<le> c \<Longrightarrow> snd (mysprintfW buf c fmt out w)
     = w\<lparr>diags := diags w @ (if c \<le> length out then [ErrPrint ''mysprintf buffer overflow''] else [])\<rparr>"
  by (simp add: mysprintfW_def Let_def mysprintf_log)

lemma mysprintfW_fst:
  "1 \<le> c \<Longrightarrow> c \<le> length buf \<Longrightarrow> fst (mysprintfW buf c fmt out w)
     = take (min (length out) (c - 1)) out @ NUL # drop (Suc (min (length out) (c - 1))) buf"
  by (simp add: mysprintfW_def Let_def mysprintf_mem)

lemma pid_text_length: "length (show_int (sint (p :: 32 word)) @ [CHR 0x0A]) < 16"
  using show_int_pid_length [of p] by simp

lemma pidStr_strlen:
  "strlen (fst (mysprintfW (replicate 16 NUL) 16 f (show_int (sint (p :: 32 word)) @ [CHR 0x0A]) w))
   = length (show_int (sint p)) + 1"
proof -
  let ?out = "show_int (sint p) @ [CHR 0x0A]"
  have k: "min (length ?out) (16 - 1) = length ?out" using pid_text_length [of p] by simp
  have nz: "NUL \<notin> set ?out" using show_int_no_NUL [of "sint p"] by (simp add: NUL_def)
  have "fst (mysprintfW (replicate 16 NUL) 16 f ?out w)
        = take (min (length ?out) (16 - 1)) ?out
          @ NUL # drop (Suc (min (length ?out) (16 - 1))) (replicate 16 NUL)"
    by (rule mysprintfW_fst) simp_all
  then have "fst (mysprintfW (replicate 16 NUL) 16 f ?out w)
        = ?out @ NUL # drop (Suc (length ?out)) (replicate 16 NUL)"
    by (simp only: k take_all order_refl)
  then have "strlen (fst (mysprintfW (replicate 16 NUL) 16 f ?out w)) = length ?out"
    using strlen_terminated [OF nz] by (simp only:)
  then show ?thesis by simp
qed

lemma pidStr_diags:
  "snd (mysprintfW (replicate 16 NUL) 16 f (show_int (sint (p :: 32 word)) @ [CHR 0x0A]) w) = w"
  using pid_text_length [of p] mysprintfW_snd [of 16 "replicate 16 NUL" f "show_int (sint p) @ [CHR 0x0A]" w]
  by simp

lemma LockProcess_fst: "fst (LockProcess e cmp w) \<longleftrightarrow> 0 \<le> open_ret e \<and> 0 \<le> lockf_ret e"
  by (simp add: LockProcess_def Let_def split: prod.splits)

lemmas world_ops = sys_def sys_open_def ErrPrintW_def DbgPrintW_def

lemma LockProcess_lock_failure:
  assumes "0 \<le> open_ret e" "lockf_ret e < 0"
  shows "filter is_close (calls_since w (snd (LockProcess e cmp w))) = []"
    and "open_ret e \<in> open_fds (snd (LockProcess e cmp w))"
  using assms
  by (simp_all add: LockProcess_def Let_def case_prod_beta mysprintfW_snd [OF PATH_MAX_pos] world_ops
      calls_since_def is_close_def)

lemma LockProcess_success_diags:
  assumes "0 \<le> open_ret e" "0 \<le> lockf_ret e"
  shows "diags (snd (LockProcess e cmp w))
         = diags w
           @ (if PATH_MAX \<le> length (lock_path cmp)
              then [ErrPrint ''mysprintf buffer overflow''] else [])
           @ (if ftruncate_ret e < 0
              then [DbgPrint ''Failed truncating lock file (err %d, %s).''] else [])
           @ (if write_ret e < int (length (show_int (sint (pid e)))) + 1
              then [DbgPrint ''Failed writing lock file (err %d, %s).''] else [])"
  using assms
  by (simp add: LockProcess_def Let_def case_prod_beta pidStr_strlen pidStr_diags mysprintfW_snd [OF PATH_MAX_pos]
      world_ops lock_path_def)

lemma LockProcess_fd:
  "fd (g_processLock (snd (LockProcess e cmp w)))
     = (if fst (LockProcess e cmp w) then open_ret e else fd (g_processLock w))"
  by (simp add: LockProcess_def Let_def case_prod_beta pidStr_diags mysprintfW_snd [OF PATH_MAX_pos]
      world_ops)

lemma LockProcess_path:
  assumes "length (path (g_processLock w)) = PATH_MAX"
  shows "path (g_processLock (snd (LockProcess e cmp w)))
         = take (min (length (lock_path cmp)) (PATH_MAX - 1)) (lock_path cmp)
           @ NUL # drop (Suc (min (length (lock_path cmp)) (PATH_MAX - 1))) (path (g_processLock w))"
  using assms mysprintfW_fst [OF PATH_MAX_pos, of "path (g_processLock w)" "''%s/%s.pid''" "lock_path cmp"]
  by (simp add: LockProcess_def Let_def case_prod_beta pidStr_diags mysprintfW_snd [OF PATH_MAX_pos]
      world_ops lock_path_def)

text \<open>
  C3. \<open>LockProcess\<close> returns false exactly when \<open>open\<close> fails or \<open>lockf\<close> fails.
  When \<open>lockf\<close> fails after a successful \<open>open\<close>, the call makes no \<open>close\<close> and the
  descriptor stays open. When both succeed the call returns true whatever \<open>ftruncate\<close>
  and \<open>write\<close> return: their failures add a debug diagnostic each and nothing else (the
  only other diagnostic possible is the truncation report for a lock path that does not
  fit \<open>PATH_MAX\<close>).
\<close>

theorem LockProcess_result:
  "(\<not> fst (LockProcess e cmp w) \<longleftrightarrow> open_ret e < 0 \<or> lockf_ret e < 0) \<and>
   (0 \<le> open_ret e \<and> lockf_ret e < 0 \<longrightarrow>
      filter is_close (calls_since w (snd (LockProcess e cmp w))) = [] \<and>
      open_ret e \<in> open_fds (snd (LockProcess e cmp w))) \<and>
   (0 \<le> open_ret e \<and> 0 \<le> lockf_ret e \<longrightarrow>
      fst (LockProcess e cmp w) \<and>
      diags (snd (LockProcess e cmp w))
        = diags w
          @ (if PATH_MAX \<le> length (lock_path cmp)
             then [ErrPrint ''mysprintf buffer overflow''] else [])
          @ (if ftruncate_ret e < 0
             then [DbgPrint ''Failed truncating lock file (err %d, %s).''] else [])
          @ (if write_ret e < int (length (show_int (sint (pid e)))) + 1
             then [DbgPrint ''Failed writing lock file (err %d, %s).''] else []))"
proof (intro conjI impI)
  show "(\<not> fst (LockProcess e cmp w)) = (open_ret e < 0 \<or> lockf_ret e < 0)"
    by (auto simp: LockProcess_fst)
next
  assume "0 \<le> open_ret e \<and> lockf_ret e < 0"
  then show "filter is_close (calls_since w (snd (LockProcess e cmp w))) = []"
    and "open_ret e \<in> open_fds (snd (LockProcess e cmp w))"
    by (simp_all add: LockProcess_lock_failure)
next
  assume "0 \<le> open_ret e \<and> 0 \<le> lockf_ret e"
  then show "fst (LockProcess e cmp w)"
    and "diags (snd (LockProcess e cmp w))
        = diags w
          @ (if PATH_MAX \<le> length (lock_path cmp)
             then [ErrPrint ''mysprintf buffer overflow''] else [])
          @ (if ftruncate_ret e < 0
             then [DbgPrint ''Failed truncating lock file (err %d, %s).''] else [])
          @ (if write_ret e < int (length (show_int (sint (pid e)))) + 1
             then [DbgPrint ''Failed writing lock file (err %d, %s).''] else [])"
    by (simp_all add: LockProcess_fst LockProcess_success_diags)
qed

theorem LockProcess_result_witness:
  "\<not> fst (LockProcess
       \<lparr>pid = 1234, open_ret = 3, open_errno = 0, lockf_ret = - 1, lockf_errno = 11,
        ftruncate_ret = 0, ftruncate_errno = 0, write_ret = 5, write_errno = 0\<rparr>
       ''logd'' process_start) \<and>
   3 \<in> open_fds (snd (LockProcess
       \<lparr>pid = 1234, open_ret = 3, open_errno = 0, lockf_ret = - 1, lockf_errno = 11,
        ftruncate_ret = 0, ftruncate_errno = 0, write_ret = 5, write_errno = 0\<rparr>
       ''logd'' process_start)) \<and>
   fst (LockProcess
       \<lparr>pid = 1234, open_ret = 3, open_errno = 0, lockf_ret = 0, lockf_errno = 0,
        ftruncate_ret = - 1, ftruncate_errno = 5, write_ret = - 1, write_errno = 5\<rparr>
       ''logd'' process_start) \<and>
   diags (snd (LockProcess
       \<lparr>pid = 1234, open_ret = 3, open_errno = 0, lockf_ret = 0, lockf_errno = 0,
        ftruncate_ret = - 1, ftruncate_errno = 5, write_ret = - 1, write_errno = 5\<rparr>
       ''logd'' process_start))
     = [DbgPrint ''Failed truncating lock file (err %d, %s).'',
        DbgPrint ''Failed writing lock file (err %d, %s).'']"
  using LockProcess_result [of
       "\<lparr>pid = 1234, open_ret = 3, open_errno = 0, lockf_ret = - 1, lockf_errno = 11,
        ftruncate_ret = 0, ftruncate_errno = 0, write_ret = 5, write_errno = 0\<rparr>"
       "''logd''" process_start]
    LockProcess_result [of
       "\<lparr>pid = 1234, open_ret = 3, open_errno = 0, lockf_ret = 0, lockf_errno = 0,
        ftruncate_ret = - 1, ftruncate_errno = 5, write_ret = - 1, write_errno = 5\<rparr>"
       "''logd''" process_start]
  by (simp add: PATH_MAX_def lock_path_def c_str_def NUL_def process_start_def)

lemma NUL_notin_lock_path: "NUL \<notin> set (lock_path cmp)"
  using NUL_notin_c_str [of cmp] by (simp add: lock_path_def NUL_def)

lemma process_start_path: "length (path (g_processLock process_start)) = PATH_MAX"
  by (simp add: process_start_def g_processLock_init_def)

text \<open>
  C8, as the claim states it, fails: \<open>LockProcess\<close> formats the lock path straight into
  the \<open>path\<close> field of the static handle before it calls \<open>open\<close>, so a failing call has
  changed that field.
\<close>

theorem LockProcess_failure_writes_path:
  "\<not> fst (LockProcess
       \<lparr>pid = 1234, open_ret = - 1, open_errno = 13, lockf_ret = 0, lockf_errno = 0,
        ftruncate_ret = 0, ftruncate_errno = 0, write_ret = 5, write_errno = 0\<rparr>
       ''logd'' process_start) \<and>
   path (g_processLock (snd (LockProcess
       \<lparr>pid = 1234, open_ret = - 1, open_errno = 13, lockf_ret = 0, lockf_errno = 0,
        ftruncate_ret = 0, ftruncate_errno = 0, write_ret = 5, write_errno = 0\<rparr>
       ''logd'' process_start)))
     \<noteq> path (g_processLock process_start)"
proof -
  let ?e = "\<lparr>pid = 1234, open_ret = - 1, open_errno = 13, lockf_ret = 0, lockf_errno = 0,
        ftruncate_ret = 0, ftruncate_errno = 0, write_ret = 5, write_errno = 0\<rparr>"
  let ?p = "path (g_processLock (snd (LockProcess ?e ''logd'' process_start)))"
  have "hd ?p = CHR ''/''"
    by (simp add: LockProcess_path [OF process_start_path] lock_path_def PATH_MAX_def)
  moreover have "hd (path (g_processLock process_start)) = NUL"
    by (simp add: process_start_def g_processLock_init_def PATH_MAX_def hd_replicate)
  ultimately have "?p \<noteq> path (g_processLock process_start)"
    by (auto simp: NUL_def)
  then show ?thesis by (simp add: LockProcess_fst)
qed

lemma LockProcess_c_str_path:
  assumes "length (path (g_processLock w)) = PATH_MAX"
  shows "c_str (path (g_processLock (snd (LockProcess e cmp w))))
         = take (PATH_MAX - 1) (lock_path cmp)"
proof -
  let ?k = "min (length (lock_path cmp)) (PATH_MAX - 1)"
  have nz: "NUL \<notin> set (take ?k (lock_path cmp))"
    using NUL_notin_lock_path [of cmp] by (auto dest: in_set_takeD)
  have "c_str (path (g_processLock (snd (LockProcess e cmp w)))) = take ?k (lock_path cmp)"
    using c_str_terminated [OF nz] by (simp only: LockProcess_path [OF assms])
  moreover have "take ?k (lock_path cmp) = take (PATH_MAX - 1) (lock_path cmp)"
    by (simp add: min_def)
  ultimately show ?thesis by simp
qed


lemma LockProcess_first_calls:
  "take 2 (calls_since w (snd (LockProcess e cmp w)))
   = [Mkdir ''/tmp/run'', Open (c_str (path (g_processLock (snd (LockProcess e cmp w)))))]"
  by (simp add: LockProcess_def Let_def case_prod_beta pidStr_diags mysprintfW_snd [OF PATH_MAX_pos]
      world_ops calls_since_def)

text \<open>
  C8, amended. The descriptor field of the static handle is recorded by a successful
  \<open>LockProcess\<close> only: a failing call leaves it as it was, a successful one sets it to the
  descriptor \<open>open\<close> returned. The path field is written by every call, failing or not:
  the file the call opens, right after \<open>mkdir\<close>, is the one at the lock path of the
  component, cut to \<open>PATH_MAX - 1\<close> bytes, and after the call the field holds that path.
\<close>

theorem LockProcess_handle_fields:
  assumes "length (path (g_processLock w)) = PATH_MAX"
  shows "(\<not> fst (LockProcess e cmp w) \<longrightarrow>
            fd (g_processLock (snd (LockProcess e cmp w))) = fd (g_processLock w)) \<and>
         (fst (LockProcess e cmp w) \<longrightarrow>
            fd (g_processLock (snd (LockProcess e cmp w))) = open_ret e) \<and>
         take 2 (calls_since w (snd (LockProcess e cmp w)))
           = [Mkdir ''/tmp/run'', Open (take (PATH_MAX - 1) (lock_path cmp))] \<and>
         c_str (path (g_processLock (snd (LockProcess e cmp w))))
           = take (PATH_MAX - 1) (lock_path cmp)"
  using assms
  by (simp add: LockProcess_fd LockProcess_first_calls LockProcess_c_str_path)

theorem LockProcess_handle_fields_witness:
  "length (path (g_processLock process_start)) = PATH_MAX \<and>
   \<not> fst (LockProcess
       \<lparr>pid = 1234, open_ret = - 1, open_errno = 13, lockf_ret = 0, lockf_errno = 0,
        ftruncate_ret = 0, ftruncate_errno = 0, write_ret = 5, write_errno = 0\<rparr>
       ''logd'' process_start) \<and>
   fd (g_processLock (snd (LockProcess
       \<lparr>pid = 1234, open_ret = - 1, open_errno = 13, lockf_ret = 0, lockf_errno = 0,
        ftruncate_ret = 0, ftruncate_errno = 0, write_ret = 5, write_errno = 0\<rparr>
       ''logd'' process_start))) = 0 \<and>
   take 2 (calls_since process_start (snd (LockProcess
       \<lparr>pid = 1234, open_ret = - 1, open_errno = 13, lockf_ret = 0, lockf_errno = 0,
        ftruncate_ret = 0, ftruncate_errno = 0, write_ret = 5, write_errno = 0\<rparr>
       ''logd'' process_start))) = [Mkdir ''/tmp/run'', Open ''/tmp/run/logd.pid''] \<and>
   c_str (path (g_processLock (snd (LockProcess
       \<lparr>pid = 1234, open_ret = - 1, open_errno = 13, lockf_ret = 0, lockf_errno = 0,
        ftruncate_ret = 0, ftruncate_errno = 0, write_ret = 5, write_errno = 0\<rparr>
       ''logd'' process_start)))) = ''/tmp/run/logd.pid''"
  using LockProcess_handle_fields [OF process_start_path, of
       "\<lparr>pid = 1234, open_ret = - 1, open_errno = 13, lockf_ret = 0, lockf_errno = 0,
        ftruncate_ret = 0, ftruncate_errno = 0, write_ret = 5, write_errno = 0\<rparr>"
       "''logd''"]
  by (simp add: process_start_path LockProcess_fst lock_path_def c_str_def NUL_def PATH_MAX_def)
     (simp add: process_start_def g_processLock_init_def PATH_MAX_def)








section \<open>Theorems about ParseInt\<close>

lemma isspace_not_NUL: "isspace ch \<Longrightarrow> ch \<noteq> NUL"
  by (auto simp: isspace_def NUL_def)

lemma is_digit_not_NUL: "is_digit b ch \<Longrightarrow> ch \<noteq> NUL"
  by (auto simp: is_digit_def digit_val_def NUL_def Let_def split: option.splits)

lemma sign_prefix: "NUL \<notin> set (take (sign_len r) r) \<and> length (take (sign_len r) r) = sign_len r"
  by (cases r) (auto simp: sign_len_def NUL_def)

lemma hex_prefix_shape:
  "hex_prefix r \<Longrightarrow> NUL \<notin> set (take 2 r) \<and> length (take 2 r) = 2"
  by (cases r rule: list.exhaust; simp add: hex_prefix_def NUL_def split: list.splits)
     (auto simp: NUL_def split: list.splits)

lemma strtol_consumed:
  "fst (snd (strtol s)) \<le> length s \<and> NUL \<notin> set (take (fst (snd (strtol s))) s)"
proof -
  define ws where "ws = takeWhile isspace s"
  define r1 where "r1 = dropWhile isspace s"
  define sg where "sg = take (sign_len r1) r1"
  define r2 where "r2 = drop (sign_len r1) r1"
  define h where "h = (if hex_prefix r2 then 2 else 0 :: nat)"
  define pf where "pf = take h r2"
  define r3 where "r3 = drop h r2"
  define ds where "ds = takeWhile (is_digit (detect_base r2)) r3"
  define r4 where "r4 = dropWhile (is_digit (detect_base r2)) r3"
  have "s = ws @ r1" by (simp add: ws_def r1_def)
  moreover have "r1 = sg @ r2" by (simp add: sg_def r2_def)
  moreover have "r2 = pf @ r3" by (simp add: pf_def r3_def)
  moreover have "r3 = ds @ r4" by (simp add: ds_def r4_def)
  ultimately have s: "s = (ws @ sg @ pf @ ds) @ r4" by simp
  have nws: "NUL \<notin> set ws"
    unfolding ws_def using isspace_not_NUL by (auto dest: set_takeWhileD)
  have nsg: "NUL \<notin> set sg" "length sg = sign_len r1"
    using sign_prefix [of r1] by (simp_all add: sg_def)
  have npf: "NUL \<notin> set pf" "length pf = h"
    using hex_prefix_shape [of r2] by (auto simp: pf_def h_def)
  have nds: "NUL \<notin> set ds"
    unfolding ds_def using is_digit_not_NUL by (auto dest: set_takeWhileD)
  have e: "fst (snd (strtol s)) = (if ds = [] then 0 else length (ws @ sg @ pf @ ds))"
    unfolding strtol_def Let_def
    by (simp add: ws_def [symmetric] r1_def [symmetric] r2_def [symmetric] h_def [symmetric]
        r3_def [symmetric] ds_def [symmetric] nsg npf)
       (simp add: h_def r3_def ds_def)
  show ?thesis
  proof (cases "ds = []")
    case True
    with e show ?thesis by simp
  next
    case False
    with e have k: "fst (snd (strtol s)) = length (ws @ sg @ pf @ ds)" by simp
    have "take (length (ws @ sg @ pf @ ds)) s = ws @ sg @ pf @ ds"
      by (subst s) simp
    moreover have "length s = length (ws @ sg @ pf @ ds) + length r4"
      using arg_cong [OF s, of length] by simp
    then have "length (ws @ sg @ pf @ ds) \<le> length s" by simp
    moreover note nws nsg npf nds
    ultimately show ?thesis by (simp only: k) simp
  qed
qed

lemma strlen_0_iff: "strlen r = 0 \<longleftrightarrow> (case r of [] \<Rightarrow> True | x # _ \<Rightarrow> x = NUL)"
  by (cases r) (simp_all add: strlen_def)

lemma deref_strlen:
  assumes "k \<le> length s" "NUL \<notin> set (take k s)"
  shows "deref s k = NUL \<longleftrightarrow> strlen s = k"
proof -
  have "strlen (take k s @ drop k s) = length (take k s) + strlen (drop k s)"
    using assms(2) by (rule strlen_append)
  then have sl: "strlen s = k + strlen (drop k s)" using assms(1) by simp
  show ?thesis
  proof (cases "k < length s")
    case True
    then have "drop k s = s ! k # drop (Suc k) s" by (simp add: Cons_nth_drop_Suc)
    then have "strlen (drop k s) = 0 \<longleftrightarrow> s ! k = NUL" by (simp add: strlen_0_iff)
    with True sl show ?thesis by (simp add: deref_def)
  next
    case False
    with assms(1) sl show ?thesis by (simp add: deref_def strlen_def)
  qed
qed

lemma ParseInt_fst:
  "fst (ParseInt s nP) \<longleftrightarrow> 0 < consumed s \<and> consumed s = strlen s \<and> \<not> overflowed s"
proof -
  obtain n endp er where st: "strtol s = (n, endp, er)" by (cases "strtol s")
  have "endp \<le> length s" "NUL \<notin> set (take endp s)"
    using strtol_consumed [of s] by (simp_all add: st)
  then have "deref s endp = NUL \<longleftrightarrow> strlen s = endp" by (rule deref_strlen)
  then show ?thesis
    by (auto simp: ParseInt_def consumed_def overflowed_def st)
qed

text \<open>
  C4. \<open>ParseInt\<close> returns success if and only if the input string is not empty, \<open>strtol\<close>
  with base 0 consumed at least one character, it consumed the whole string (nothing
  follows the number), and it reported no range error. In particular \<open>"42"\<close> gives 42
  and success, \<open>"42abc"\<close> and the empty string fail, and \<open>"0x2A"\<close> gives 42 and success.
\<close>

theorem ParseInt_success:
  "(fst (ParseInt s nP) \<longleftrightarrow>
      c_str s \<noteq> [] \<and> 0 < consumed s \<and> consumed s = strlen s \<and> \<not> overflowed s) \<and>
   ParseInt ''42'' nP = (True, 42) \<and>
   ParseInt ''42abc'' nP = (False, nP) \<and>
   ParseInt [] nP = (False, nP) \<and>
   ParseInt ''0x2A'' nP = (True, 42)"
proof (intro conjI)
  show "fst (ParseInt s nP) \<longleftrightarrow>
      c_str s \<noteq> [] \<and> 0 < consumed s \<and> consumed s = strlen s \<and> \<not> overflowed s"
    by (auto simp: ParseInt_fst strlen_c_str)
  show "ParseInt ''42'' nP = (True, 42)" by code_simp
  show "ParseInt ''42abc'' nP = (False, nP)" by code_simp
  show "ParseInt [] nP = (False, nP)" by code_simp
  show "ParseInt ''0x2A'' nP = (True, 42)" by code_simp
qed

theorem ParseInt_success_witness:
  "c_str ''0x2A'' \<noteq> [] \<and> 0 < consumed ''0x2A'' \<and> consumed ''0x2A'' = strlen ''0x2A'' \<and>
   \<not> overflowed ''0x2A'' \<and> fst (ParseInt ''0x2A'' 7) \<and>
   consumed ''42abc'' \<noteq> strlen ''42abc'' \<and> \<not> fst (ParseInt ''42abc'' 7) \<and>
   overflowed ''9223372036854775808'' \<and> \<not> fst (ParseInt ''9223372036854775808'' 7)"
proof -
  have a: "c_str ''0x2A'' \<noteq> []" "0 < consumed ''0x2A''" "consumed ''0x2A'' = strlen ''0x2A''"
    "\<not> overflowed ''0x2A''"
    by code_simp+
  have b: "consumed ''42abc'' \<noteq> strlen ''42abc''" by code_simp
  have c: "overflowed ''9223372036854775808''"
    by (simp add: overflowed_def strtol_def Let_def isspace_def sign_len_def hex_prefix_def
        detect_base_def is_digit_def digit_val_def digit_of_def LONG_MAX_def LONG_MIN_def
        ERANGE_def)
  show ?thesis
    using a b c ParseInt_success [of "''0x2A''" 7] ParseInt_success [of "''42abc''" 7]
      ParseInt_success [of "''9223372036854775808''" 7]
    by simp
qed

text \<open>
  C10. On every input on which \<open>ParseInt\<close> returns failure, the integer at \<open>nP\<close> is
  what it was before the call: \<open>*nP\<close> is assigned on the success path only.
\<close>

theorem ParseInt_failure_keeps_output:
  "\<not> fst (ParseInt valStr nP) \<Longrightarrow> snd (ParseInt valStr nP) = nP"
  by (auto simp: ParseInt_def split: prod.splits if_splits)

theorem ParseInt_failure_keeps_output_witness:
  "\<not> fst (ParseInt ''42abc'' 7) \<and> snd (ParseInt ''42abc'' 7) = 7"
proof -
  have f: "\<not> fst (ParseInt ''42abc'' 7)" by code_simp
  show ?thesis using f ParseInt_failure_keeps_output [OF f] by simp
qed

end
